theory Spec2Isabelle
  imports Complex_Main "HOL-Library.AList"
begin

section \<open>Python strings\<close>

text \<open>
  A Python \<open>str\<close> is modelled as a HOL \<open>string\<close>: the list of its code points, each
  below 256.  On that range the regular expression class \<open>\d\<close> is the ten ASCII digits,
  \<open>str.isspace\<close> holds of the twelve characters listed in \<open>isspace\<close>, and
  \<open>str.lower\<close> moves \<open>A-Z\<close> and the Latin-1 capitals by 32.
\<close>

definition isdigit :: "char \<Rightarrow> bool" where
  "isdigit c = (c \<in> set ''0123456789'')"

definition isspace :: "char \<Rightarrow> bool" where
  "isspace c = (of_char c \<in> set [9, 10, 11, 12, 13, 28, 29, 30, 31, 32, 133, 160 :: nat])"

definition lower_char :: "char \<Rightarrow> char" where
  "lower_char c =
     (let n = (of_char c :: nat)
      in if (65 \<le> n \<and> n \<le> 90) \<or> (192 \<le> n \<and> n \<le> 222 \<and> n \<noteq> 215)
         then char_of (n + 32) else c)"

definition lower :: "string \<Rightarrow> string" where
  \<comment> \<open>\<open>s.lower()\<close>\<close>
  "lower s = map lower_char s"

definition strip_chars :: "(char \<Rightarrow> bool) \<Rightarrow> string \<Rightarrow> string" where
  "strip_chars p s = rev (dropWhile p (rev (dropWhile p s)))"

definition strip :: "string \<Rightarrow> string" where
  \<comment> \<open>\<open>s.strip()\<close>: leading and trailing whitespace removed\<close>
  "strip s = strip_chars isspace s"

definition strip_of :: "string \<Rightarrow> string \<Rightarrow> string" where
  \<comment> \<open>\<open>s.strip(chars)\<close>\<close>
  "strip_of chars s = strip_chars (\<lambda>c. c \<in> set chars) s"

definition startswith :: "string \<Rightarrow> string \<Rightarrow> bool" where
  \<comment> \<open>\<open>s.startswith(p)\<close>\<close>
  "startswith s p = (take (length p) s = p)"

fun str_in :: "string \<Rightarrow> string \<Rightarrow> bool" where
  \<comment> \<open>\<open>sub in s\<close>: \<open>sub\<close> occurs in \<open>s\<close> as a contiguous substring\<close>
  "str_in sub [] = (sub = [])"
| "str_in sub (c # cs) = (startswith (c # cs) sub \<or> str_in sub cs)"

fun replace :: "string \<Rightarrow> string \<Rightarrow> string \<Rightarrow> string" where
  \<comment> \<open>\<open>s.replace(old, new)\<close> for a non-empty \<open>old\<close> (both call sites pass a non-empty
      literal): the occurrences are replaced from the left, without overlap\<close>
  "replace old new [] = []"
| "replace old new (c # cs) =
     (if old \<noteq> [] \<and> startswith (c # cs) old
      then new @ replace old new (drop (length old - 1) cs)
      else c # replace old new cs)"

definition slice :: "nat \<Rightarrow> nat \<Rightarrow> string \<Rightarrow> string" where
  \<comment> \<open>\<open>s[i:j]\<close> for \<open>0 \<le> i \<le> j\<close>; a slice past the end is cut short, never an error\<close>
  "slice i j s = take (j - i) (drop i s)"

definition re_sub_nondigits :: "string \<Rightarrow> string" where
  \<comment> \<open>\<open>re.sub(r'\D', '', s)\<close>\<close>
  "re_sub_nondigits s = filter isdigit s"

section \<open>Phone numbers\<close>

definition format_phone :: "string \<Rightarrow> string" where
  \<comment> \<open>\<open>f"{digits[0:3]}.{digits[3:6]}.{digits[6:10]}"\<close>\<close>
  "format_phone digits = slice 0 3 digits @ ''.'' @ slice 3 6 digits @ ''.'' @ slice 6 10 digits"

definition normalize_phone :: "string option \<Rightarrow> string option" where
  \<comment> \<open>The argument is a \<open>str\<close> or \<open>None\<close>; \<open>phone or ''\<close> turns \<open>None\<close> into the
      empty string.\<close>
  "normalize_phone phone =
     (let digits = re_sub_nondigits (case phone of None \<Rightarrow> '''' | Some p \<Rightarrow> p);
          digits = (if startswith digits ''1'' \<and> length digits = 11 then drop 1 digits else digits)
      in if length digits = 10 then Some (format_phone digits) else None)"

section \<open>Records as the CSV reader yields them\<close>

datatype error = AttributeError | TypeError | IndexError | KeyError | ReadError | SheetError

text \<open>
  \<open>csv.DictReader\<close> turns a data line (a list of strings) into a dict keyed by the
  header's field names, in the header's order.  A line longer than the header puts its
  surplus cells, as a list, under the key \<open>None\<close>; a shorter line gives the value
  \<open>None\<close> to every field it lacks.  A dict is an association list with distinct keys
  in insertion order: \<open>d[k] = v\<close> is \<open>AList.update\<close>, which overwrites in place or
  appends.
\<close>

text \<open>
  A value of a record, and later a cell of a transformed row, is a string, \<open>None\<close>, a
  float (a converted date) or a list of strings (the surplus cells of a long line).
\<close>

datatype cell = Str string | NoneV | Num real | Lst "string list"

type_synonym csv_dict = "(string option \<times> cell) list"

definition dict_reader :: "string list \<Rightarrow> string list \<Rightarrow> csv_dict" where
  "dict_reader names row =
     (let d = fold (\<lambda>(k, v). AList.update (Some k) (Str v)) (zip names row) [];
          lf = length names;
          lr = length row
      in if lf < lr then AList.update None (Lst (drop lf row)) d
         else if lf > lr then fold (\<lambda>k. AList.update (Some k) NoneV) (drop lr names) d
         else d)"

definition get_str :: "csv_dict \<Rightarrow> string \<Rightarrow> cell" where
  \<comment> \<open>\<open>row.get(key, '')\<close>\<close>
  "get_str row key = (case map_of row (Some key) of None \<Rightarrow> Str [] | Some v \<Rightarrow> v)"

definition strip_val :: "cell \<Rightarrow> error + string" where
  \<comment> \<open>\<open>v.strip()\<close>: only a \<open>str\<close> has the method\<close>
  "strip_val v = (case v of Str s \<Rightarrow> Inr (strip s) | _ \<Rightarrow> Inl AttributeError)"

text \<open>
  What the program is given for one CSV file: the header and the data lines that
  \<open>csv.reader\<close> yields, the exception, if any, that opening or reading the file raises
  after those lines, and the outcome of each call to the spreadsheet service made for
  the file.  \<open>DictReader\<close> skips a blank line, which \<open>csv.reader\<close> yields as the
  empty list.
\<close>

datatype lookup = Found | NotFound | LookupFails

record csv_file =
  fieldnames :: "string list"
  lines :: "string list list"
  read_error :: "error option"
  worksheet :: lookup
  clear_fails :: bool
  add_worksheet_fails :: bool
  update_fails :: bool
  batch_update_fails :: bool

definition read_rows :: "csv_file \<Rightarrow> csv_dict list" where
  "read_rows f = map (dict_reader (fieldnames f)) (filter (\<lambda>row. row \<noteq> []) (lines f))"

section \<open>The global email-to-phone map\<close>

definition index_row :: "(string \<rightharpoonup> string) \<Rightarrow> csv_dict \<Rightarrow> error + (string \<rightharpoonup> string)" where
  \<comment> \<open>the body of the inner loop of \<open>build_global_email_phone_map\<close>\<close>
  "index_row email_phone_map row =
     (case strip_val (get_str row ''email'') of
        Inl e \<Rightarrow> Inl e
      | Inr e \<Rightarrow>
          let email = lower e in
          (case strip_val (get_str row ''phone'') of
             Inl e \<Rightarrow> Inl e
           | Inr phone \<Rightarrow>
               let digits = re_sub_nondigits phone in
               if email \<noteq> [] \<and> length digits = 10
               then (if email_phone_map email = None
                     then Inr (email_phone_map(email \<mapsto> format_phone digits))
                     else Inr email_phone_map)
               else Inr email_phone_map))"

fun index_rows :: "(string \<rightharpoonup> string) \<Rightarrow> csv_dict list \<Rightarrow> error + (string \<rightharpoonup> string)" where
  "index_rows m [] = Inr m"
| "index_rows m (row # rows) =
     (case index_row m row of Inl e \<Rightarrow> Inl e | Inr m' \<Rightarrow> index_rows m' rows)"

definition index_file :: "(string \<rightharpoonup> string) \<Rightarrow> csv_file \<Rightarrow> error + (string \<rightharpoonup> string)" where
  "index_file m f =
     (case index_rows m (read_rows f) of
        Inl e \<Rightarrow> Inl e
      | Inr m' \<Rightarrow> (case read_error f of Some e \<Rightarrow> Inl e | None \<Rightarrow> Inr m'))"

fun index_files :: "(string \<rightharpoonup> string) \<Rightarrow> csv_file list \<Rightarrow> error + (string \<rightharpoonup> string)" where
  "index_files m [] = Inr m"
| "index_files m (f # fs) =
     (case index_file m f of Inl e \<Rightarrow> Inl e | Inr m' \<Rightarrow> index_files m' fs)"

definition build_global_email_phone_map :: "csv_file list \<Rightarrow> error + (string \<rightharpoonup> string)" where
  \<comment> \<open>The files are those of \<open>glob.glob\<close>, in its order; \<open>exclude_columns\<close> is not used.\<close>
  "build_global_email_phone_map csv_files = index_files Map.empty csv_files"

text \<open>The notions the specification states the index with.\<close>

definition all_rows :: "csv_file list \<Rightarrow> csv_dict list" where
  \<comment> \<open>every record, in file order and then row order\<close>
  "all_rows csv_files = concat (map read_rows csv_files)"

definition is_str :: "cell \<Rightarrow> bool" where
  "is_str v = (case v of Str _ \<Rightarrow> True | _ \<Rightarrow> False)"

definition cell_text :: "cell \<Rightarrow> string" where
  "cell_text v = (case v of Str s \<Rightarrow> s | _ \<Rightarrow> [])"

definition email_key :: "csv_dict \<Rightarrow> string" where
  \<comment> \<open>EmailKey: the \<open>email\<close> field, trimmed and lowercased\<close>
  "email_key row = lower (strip (cell_text (get_str row ''email'')))"

definition phone_digits :: "csv_dict \<Rightarrow> string" where
  \<comment> \<open>the \<open>phone\<close> field with every non-digit removed\<close>
  "phone_digits row = filter isdigit (cell_text (get_str row ''phone''))"

definition enters_index :: "string \<Rightarrow> csv_dict \<Rightarrow> bool" where
  \<comment> \<open>the record has EmailKey \<open>k\<close> and a phone of exactly ten digits\<close>
  "enters_index k row = (email_key row = k \<and> length (phone_digits row) = 10)"

definition text_fields :: "csv_dict \<Rightarrow> bool" where
  \<comment> \<open>\<open>email\<close> and \<open>phone\<close> are absent from the header or hold a string\<close>
  "text_fields row = (is_str (get_str row ''email'') \<and> is_str (get_str row ''phone''))"

definition readable :: "csv_file list \<Rightarrow> bool" where
  "readable csv_files =
     (list_all (\<lambda>f. read_error f = None) csv_files \<and> list_all text_fields (all_rows csv_files))"

definition first_phone :: "string \<Rightarrow> csv_dict list \<Rightarrow> string option" where
  \<comment> \<open>first-valid-wins, in the specification's words: the formatted phone of the first
      record that has EmailKey \<open>k\<close> and a ten-digit phone; nothing for the empty key\<close>
  "first_phone k rows =
     (if k = [] then None
      else map_option (\<lambda>r. format_phone (phone_digits r)) (find (enters_index k) rows))"

definition people_csv :: csv_file where
  "people_csv =
     \<lparr>fieldnames = [''email'', ''phone''],
      lines = [[''A@X.com '', ''(555) 123-4567''], [''a@x.com'', ''555 999 8888''],
               [''b@x.com'', ''1 555 999 8888'']],
      read_error = None, worksheet = Found, clear_fails = False,
      add_worksheet_fails = False, update_fails = False, batch_update_fails = False\<rparr>"

fun each_row :: "('a \<Rightarrow> error + 'b) \<Rightarrow> 'a list \<Rightarrow> error + 'b list" where
  \<comment> \<open>a loop that handles the rows in order and appends each result to a list; the
      first exception ends it\<close>
  "each_row f [] = Inr []"
| "each_row f (row # rows) =
     (case f row of
        Inl e \<Rightarrow> Inl e
      | Inr row' \<Rightarrow> (case each_row f rows of Inl e \<Rightarrow> Inl e | Inr rows' \<Rightarrow> Inr (row' # rows')))"

section \<open>Backfilling phone numbers from the global map\<close>

fun first_index :: "('a \<Rightarrow> bool) \<Rightarrow> 'a list \<Rightarrow> nat option" where
  \<comment> \<open>\<open>next((i for i, h in enumerate(xs) if P(h)), None)\<close>\<close>
  "first_index P [] = None"
| "first_index P (x # xs) = (if P x then Some 0 else map_option Suc (first_index P xs))"

definition header_index :: "string \<Rightarrow> string list \<Rightarrow> nat option" where
  "header_index word header = first_index (\<lambda>h. str_in word (lower h)) header"

definition normalize_phone_cell :: "cell \<Rightarrow> error + string option" where
  \<comment> \<open>\<open>normalize_phone(c)\<close> for a cell: \<open>c or ''\<close> is the empty string for \<open>None\<close>,
      for the float zero and for the empty list; \<open>re.sub\<close> raises on any other float
      or list\<close>
  "normalize_phone_cell c =
     (case c of
        Str s \<Rightarrow> Inr (normalize_phone (Some s))
      | NoneV \<Rightarrow> Inr (normalize_phone None)
      | Num x \<Rightarrow> if x = 0 then Inr (normalize_phone None) else Inl TypeError
      | Lst l \<Rightarrow> if l = [] then Inr (normalize_phone None) else Inl TypeError)"

definition map_get :: "(string \<rightharpoonup> string) \<Rightarrow> string \<Rightarrow> string" where
  \<comment> \<open>\<open>m.get(k, '')\<close>\<close>
  "map_get m k = (case m k of None \<Rightarrow> [] | Some v \<Rightarrow> v)"

definition fix_row :: "nat \<Rightarrow> nat \<Rightarrow> (string \<rightharpoonup> string) \<Rightarrow> cell list \<Rightarrow> error + cell list" where
  \<comment> \<open>the body of the loop of \<open>qa_phone_numbers_with_global_map\<close>; reading a list past
      its end raises, as does \<open>strip\<close> on a cell that is not a string\<close>
  "fix_row phone_idx email_idx global_email_phone_map row =
     (if email_idx < length row then
        (case row ! email_idx of
           Str e \<Rightarrow>
             let email = lower (strip e) in
             if phone_idx < length row then
               (case normalize_phone_cell (row ! phone_idx) of
                  Inl err \<Rightarrow> Inl err
                | Inr phone \<Rightarrow>
                    let phone = (case phone of
                                   None \<Rightarrow> map_get global_email_phone_map email
                                 | Some p \<Rightarrow> if p = [] then map_get global_email_phone_map email
                                             else p)
                    in Inr (row[phone_idx := Str phone]))
             else Inl IndexError
         | _ \<Rightarrow> Inl AttributeError)
      else Inl IndexError)"


definition qa_phone_numbers_with_global_map ::
  "cell list list \<Rightarrow> string list \<Rightarrow> (string \<rightharpoonup> string) \<Rightarrow> error + cell list list" where
  "qa_phone_numbers_with_global_map rows header global_email_phone_map =
     (case header_index ''phone'' header of
        None \<Rightarrow> Inr rows
      | Some phone_idx \<Rightarrow>
          (case header_index ''email'' header of
             None \<Rightarrow> Inr rows
           | Some email_idx \<Rightarrow> each_row (fix_row phone_idx email_idx global_email_phone_map) rows))"

text \<open>The notions the specification states the backfiller with.\<close>

definition fixable :: "nat \<Rightarrow> nat \<Rightarrow> cell list \<Rightarrow> bool" where
  \<comment> \<open>the row reaches both columns, its email cell is a string and its phone cell is a
      string, \<open>None\<close>, zero or the empty list: the rows on which the loop body does not
      raise\<close>
  "fixable phone_idx email_idx row =
     (email_idx < length row \<and> phone_idx < length row \<and>
      (case row ! email_idx of Str _ \<Rightarrow> True | _ \<Rightarrow> False) \<and>
      (case row ! phone_idx of Str _ \<Rightarrow> True | NoneV \<Rightarrow> True | Num x \<Rightarrow> x = 0
       | Lst l \<Rightarrow> l = []))"

definition revalidated :: "cell \<Rightarrow> string option" where
  \<comment> \<open>the phone that \<open>normalize_phone\<close> returns for a phone cell, if any\<close>
  "revalidated c = (case normalize_phone_cell c of Inr (Some q) \<Rightarrow> Some q | _ \<Rightarrow> None)"

definition cell_email_key :: "cell \<Rightarrow> string" where
  \<comment> \<open>EmailKey of an email cell\<close>
  "cell_email_key c = (case c of Str e \<Rightarrow> lower (strip e) | _ \<Rightarrow> [])"

definition backfilled :: "nat \<Rightarrow> nat \<Rightarrow> (string \<rightharpoonup> string) \<Rightarrow> cell list \<Rightarrow> cell list" where
  \<comment> \<open>the row with its phone cell replaced: by the phone the cell re-validates to, or
      else by the global map's entry for the row's EmailKey (the empty string without one)\<close>
  "backfilled p e g row =
     row[p := Str (case revalidated (row ! p) of
                     Some q \<Rightarrow> q
                   | None \<Rightarrow> map_get g (cell_email_key (row ! e)))]"

section \<open>Transforming a record\<close>

definition exclude_columns :: "string list" where
  "exclude_columns =
     [''amountpaid'', ''slotitemid'', ''hastime'', ''status'', ''starttime'', ''startdate'',
      ''phonetype'', ''offset'', ''endtime'', ''itemmemberid'', ''signupid'', ''signedupdate'',
      ''enddate'', ''waitlist'']"

definition excluded :: "string option \<Rightarrow> bool" where
  \<comment> \<open>\<open>k in exclude_columns\<close>, also for the key \<open>None\<close>\<close>
  "excluded key = (case key of None \<Rightarrow> False | Some k \<Rightarrow> k \<in> set exclude_columns)"

definition clean_name :: "string \<Rightarrow> string" where
  \<comment> \<open>\<open>key.replace('string', '').replace('__', '_').strip('_')\<close>\<close>
  "clean_name key = strip_of ''_'' (replace ''__'' ''_'' (replace ''string'' [] key))"

definition rename_key :: "string option \<Rightarrow> csv_dict \<Rightarrow> error + csv_dict" where
  \<comment> \<open>the body of the renaming loop: \<open>'string' in key\<close> raises for the key \<open>None\<close>,
      \<open>pop\<close> raises for a key the dict lacks\<close>
  "rename_key key filtered_row =
     (case key of
        None \<Rightarrow> Inl TypeError
      | Some k \<Rightarrow>
          if str_in ''string'' k then
            (let new_key = clean_name k in
             case map_of filtered_row key of
               None \<Rightarrow> Inl KeyError
             | Some v \<Rightarrow> Inr (AList.update (Some new_key) v (AList.delete key filtered_row)))
          else Inr filtered_row)"

fun rename_keys :: "string option list \<Rightarrow> csv_dict \<Rightarrow> error + csv_dict" where
  "rename_keys [] filtered_row = Inr filtered_row"
| "rename_keys (key # keys) filtered_row =
     (case rename_key key filtered_row of
        Inl e \<Rightarrow> Inl e
      | Inr filtered_row' \<Rightarrow> rename_keys keys filtered_row')"

definition renamed_row :: "csv_dict \<Rightarrow> error + csv_dict" where
  \<comment> \<open>the excluded fields dropped, then the renaming loop over the keys as they stood
      before it\<close>
  "renamed_row row =
     (let filtered_row = filter (\<lambda>(k, v). \<not> excluded k) row
      in rename_keys (map fst filtered_row) filtered_row)"

definition truthy :: "cell \<Rightarrow> bool" where
  "truthy v = (case v of Str s \<Rightarrow> s \<noteq> [] | NoneV \<Rightarrow> False | Num x \<Rightarrow> x \<noteq> 0 | Lst l \<Rightarrow> l \<noteq> [])"

definition to_cell :: "string option \<Rightarrow> cell" where
  "to_cell p = (case p of None \<Rightarrow> NoneV | Some q \<Rightarrow> Str q)"

text \<open>
  The date conversion rests on \<open>dateutil\<close>, \<open>pytz\<close> and float arithmetic; it is a
  parameter \<open>serial\<close> of the model: the float that the body of the \<open>try\<close> block
  computes for a string, or \<open>None\<close> when that body raises.  The body raises on every
  value that is not a string.  An exception is caught and the value stays.
\<close>

definition try_serial :: "(string \<Rightarrow> real option) \<Rightarrow> cell \<Rightarrow> cell" where
  "try_serial serial v =
     (case v of Str s \<Rightarrow> (case serial s of Some x \<Rightarrow> Num x | None \<Rightarrow> v) | _ \<Rightarrow> v)"

definition convert_field :: "(string \<Rightarrow> real option) \<Rightarrow> string option \<times> cell \<Rightarrow> error + string \<times> cell" where
  \<comment> \<open>the body of the loop \<open>for key in filtered_row\<close>; \<open>key.lower()\<close> raises for the
      key \<open>None\<close>\<close>
  "convert_field serial kv =
     (case fst kv of
        None \<Rightarrow> Inl AttributeError
      | Some k \<Rightarrow>
          (case (if str_in ''phone'' (lower k)
                 then (case normalize_phone_cell (snd kv) of
                         Inl e \<Rightarrow> Inl e
                       | Inr p \<Rightarrow> Inr (to_cell p))
                 else Inr (snd kv)) of
             Inl e \<Rightarrow> Inl e
           | Inr v \<Rightarrow>
               Inr (k, if str_in ''date'' (lower k) \<and> truthy v then try_serial serial v else v)))"

definition transform_row :: "(string \<Rightarrow> real option) \<Rightarrow> csv_dict \<Rightarrow> error + (string \<times> cell) list" where
  \<comment> \<open>the body of the loop \<open>for row in reader\<close> of \<open>import_csv_to_sheet\<close>\<close>
  "transform_row serial row =
     (case renamed_row row of
        Inl e \<Rightarrow> Inl e
      | Inr filtered_row \<Rightarrow> each_row (convert_field serial) filtered_row)"

section \<open>Importing the files\<close>

text \<open>
  \<open>prepare\<close> is \<open>import_csv_to_sheet\<close> up to its \<open>try\<close> block: the worksheet is found
  and cleared or else added, the file is read and every record transformed, and when
  there is a row the phones are backfilled.  It returns the grid: the header (the keys
  of the first transformed row) and the rows.  Nothing in it is inside a \<open>try\<close> except
  the lookup of the worksheet, which catches \<open>WorksheetNotFound\<close> only.
\<close>

definition prepare ::
  "(string \<Rightarrow> real option) \<Rightarrow> csv_file \<Rightarrow> (string \<rightharpoonup> string)
     \<Rightarrow> error + (string list \<times> cell list list) option" where
  "prepare serial f global_email_phone_map =
     (if worksheet f = LookupFails \<or> (worksheet f = Found \<and> clear_fails f) \<or>
         (worksheet f = NotFound \<and> add_worksheet_fails f)
      then Inl SheetError
      else
        (case each_row (transform_row serial) (read_rows f) of
           Inl e \<Rightarrow> Inl e
         | Inr filtered_data \<Rightarrow>
             (case read_error f of
                Some e \<Rightarrow> Inl e
              | None \<Rightarrow>
                  if filtered_data = [] then Inr None
                  else
                    (let headers = map fst (hd filtered_data) in
                     case qa_phone_numbers_with_global_map (map (map snd) filtered_data)
                            headers global_email_phone_map of
                       Inl e \<Rightarrow> Inl e
                     | Inr rows \<Rightarrow> Inr (Some (headers, rows))))))"

text \<open>
  What became of a file: its grid was written (\<open>Imported\<close>), the update raised and the
  error was printed (\<open>Reported\<close>), the file had no rows (\<open>NoRows\<close>), or an exception
  left \<open>import_csv_to_sheet\<close> (\<open>Raised\<close>).
\<close>

datatype outcome =
  Imported "string list" "cell list list" | Reported | NoRows | Raised error

definition import_csv_to_sheet ::
  "(string \<Rightarrow> real option) \<Rightarrow> csv_file \<Rightarrow> (string \<rightharpoonup> string) \<Rightarrow> error + outcome" where
  \<comment> \<open>The \<open>try\<close> block calls \<open>worksheet.update\<close> and, the grid having a row and a column,
      \<open>workbook.batch_update\<close>; \<open>except Exception\<close> prints what either raises.\<close>
  "import_csv_to_sheet serial f global_email_phone_map =
     (case prepare serial f global_email_phone_map of
        Inl e \<Rightarrow> Inl e
      | Inr None \<Rightarrow> Inr NoRows
      | Inr (Some (headers, rows)) \<Rightarrow>
          if update_fails f \<or> (length rows + 1 > 1 \<and> length headers > 0 \<and> batch_update_fails f)
          then Inr Reported
          else Inr (Imported headers rows))"

fun import_all ::
  "(string \<Rightarrow> real option) \<Rightarrow> (string \<rightharpoonup> string) \<Rightarrow> csv_file list \<Rightarrow> outcome list" where
  \<comment> \<open>the loop of \<open>main\<close> over the files: one outcome for each file it attempted; an
      exception ends the loop and the run\<close>
  "import_all serial m [] = []"
| "import_all serial m (f # fs) =
     (case import_csv_to_sheet serial f m of
        Inl e \<Rightarrow> [Raised e]
      | Inr outcome \<Rightarrow> outcome # import_all serial m fs)"

definition main :: "(string \<Rightarrow> real option) \<Rightarrow> csv_file list \<Rightarrow> error + outcome list" where
  \<comment> \<open>\<open>main\<close> from the listing of the directory to the end of its loop: the global
      map is built from all files, then each file is imported; the sorting of the
      sheets that follows the loop is left out\<close>
  "main serial csv_files =
     (case build_global_email_phone_map csv_files of
        Inl e \<Rightarrow> Inl e
      | Inr global_email_phone_map \<Rightarrow> Inr (import_all serial global_email_phone_map csv_files))"

definition no_dates :: "string \<Rightarrow> real option" where
  \<comment> \<open>a parser that fails on every string\<close>
  "no_dates s = None"

text \<open>Notions for stating what the transformer emits.\<close>

definition has_string :: "string option \<Rightarrow> bool" where
  "has_string key = (case key of None \<Rightarrow> False | Some k \<Rightarrow> str_in ''string'' k)"

definition cleaned :: "string option set \<Rightarrow> string option set" where
  \<comment> \<open>the cleaned names of the keys of \<open>K\<close> that contain \<open>string\<close>\<close>
  "cleaned K = {Some (clean_name k) | k. Some k \<in> K \<and> str_in ''string'' k}"

definition values_plain :: "csv_dict \<Rightarrow> bool" where
  \<comment> \<open>every key is a string and every value a string or \<open>None\<close>\<close>
  "values_plain d = (\<forall>kv\<in>set d. fst kv \<noteq> None \<and> (is_str (snd kv) \<or> snd kv = NoneV))"

definition plain :: "csv_dict \<Rightarrow> bool" where
  "plain d = (distinct (map fst d) \<and> values_plain d)"

definition converted :: "(string \<Rightarrow> real option) \<Rightarrow> string \<Rightarrow> cell \<Rightarrow> cell" where
  \<comment> \<open>what the conversion loop leaves in a field \<open>k\<close> that held a string or \<open>None\<close>\<close>
  "converted serial k v =
     (let v1 = (if str_in ''phone'' (lower k)
                then to_cell (normalize_phone (case v of Str s \<Rightarrow> Some s | _ \<Rightarrow> None))
                else v)
      in if str_in ''date'' (lower k) \<and> truthy v1 then try_serial serial v1 else v1)"

definition ragged_csv :: csv_file where
  \<comment> \<open>a file whose only data line has one cell more than the header\<close>
  "ragged_csv =
     \<lparr>fieldnames = [''email'', ''phone''],
      lines = [[''c@x.com'', ''555 000 1111'', ''extra'']],
      read_error = None, worksheet = Found, clear_fails = False,
      add_worksheet_fails = False, update_fails = False, batch_update_fails = False\<rparr>"

definition unpublished_csv :: csv_file where
  \<comment> \<open>a file like \<open>people_csv\<close> whose \<open>worksheet.update\<close> raises\<close>
  "unpublished_csv =
     \<lparr>fieldnames = [''email'', ''phone''],
      lines = [[''d@x.com'', ''555 222 3333'']],
      read_error = None, worksheet = NotFound, clear_fails = False,
      add_worksheet_fails = False, update_fails = True, batch_update_fails = False\<rparr>"

text \<open>Notions for stating which files a run reaches.\<close>

definition outcome_of :: "(string \<Rightarrow> real option) \<Rightarrow> (string \<rightharpoonup> string) \<Rightarrow> csv_file \<Rightarrow> outcome" where
  \<comment> \<open>what becomes of a file that is attempted: an exception before the \<open>try\<close> block
      leaves the function; one raised by the update is reported\<close>
  "outcome_of serial g f =
     (case prepare serial f g of
        Inl e \<Rightarrow> Raised e
      | Inr None \<Rightarrow> NoRows
      | Inr (Some (headers, rows)) \<Rightarrow>
          if update_fails f \<or> (rows \<noteq> [] \<and> headers \<noteq> [] \<and> batch_update_fails f)
          then Reported else Imported headers rows)"

definition attempted :: "(string \<Rightarrow> real option) \<Rightarrow> (string \<rightharpoonup> string) \<Rightarrow> csv_file list \<Rightarrow> nat" where
  \<comment> \<open>all the files when none raises before its \<open>try\<close> block, and otherwise the files up
      to and with the first that does\<close>
  "attempted serial g csv_files =
     (case first_index (\<lambda>f. isl (prepare serial f g)) csv_files of
        None \<Rightarrow> length csv_files
      | Some i \<Rightarrow> Suc i)"

definition scenario_csv :: csv_file where
  \<comment> \<open>the specification's end-to-end example \<open>people.csv\<close>\<close>
  "scenario_csv =
     \<lparr>fieldnames = [''email'', ''phone''],
      lines = [[''A@X.com'', ''(555) 123-4567''], [''a@x.com'', ''bad''], [''z@x.com'', '''']],
      read_error = None, worksheet = NotFound, clear_fails = False,
      add_worksheet_fails = False, update_fails = False, batch_update_fails = False\<rparr>"

definition kept_digits :: "string option \<Rightarrow> string" where
  \<comment> \<open>The specification's digit string: the input (nothing when absent) with every
      non-digit removed, and then without its leading \<open>1\<close> when there are eleven digits
      of which the first is \<open>1\<close>.\<close>
  "kept_digits s =
     (let d = filter isdigit (case s of None \<Rightarrow> [] | Some x \<Rightarrow> x)
      in if length d = 11 \<and> hd d = CHR ''1'' then tl d else d)"

section \<open>Properties of the phone normalizer\<close>

lemma list10: "length r = 10 \<Longrightarrow> r = [r!0, r!1, r!2, r!3, r!4, r!5, r!6, r!7, r!8, r!9]"
  by (auto simp: list_eq_iff_nth_eq less_Suc_eq numeral_eq_Suc)

lemma format_phone_10:
  assumes "length r = 10"
  shows "format_phone r = [r!0, r!1, r!2, CHR ''.'', r!3, r!4, r!5, CHR ''.'', r!6, r!7, r!8, r!9]"
proof -
  obtain a b c d e f g h i j where r: "r = [a, b, c, d, e, f, g, h, i, j]"
    using list10 [OF assms] by blast
  show ?thesis by (simp add: r format_phone_def slice_def)
qed

lemma isdigit_dot: "\<not> isdigit CHR ''.''"
  by (simp add: isdigit_def)

lemma filter_format_phone:
  assumes "length r = 10" "\<forall>c\<in>set r. isdigit c"
  shows "filter isdigit (format_phone r) = r"
proof -
  obtain a b c d e f g h i j where r: "r = [a, b, c, d, e, f, g, h, i, j]"
    using list10 [OF assms(1)] by blast
  show ?thesis using assms(2) by (simp add: r format_phone_def slice_def isdigit_dot)
qed

lemma startswith_1: "startswith d ''1'' = (d \<noteq> [] \<and> hd d = CHR ''1'')"
  by (cases d) (simp_all add: startswith_def)

lemma normalize_phone_kept:
  "normalize_phone s =
     (if length (kept_digits s) = 10 then Some (format_phone (kept_digits s)) else None)"
  unfolding normalize_phone_def kept_digits_def re_sub_nondigits_def Let_def startswith_1
  by (auto simp: drop_Suc)

lemma kept_digits_digits: "c \<in> set (kept_digits s) \<Longrightarrow> isdigit c"
  unfolding kept_digits_def Let_def
  by (auto split: if_splits dest: list.set_sel(2)[rotated])

lemma normalize_phone_Some:
  "normalize_phone s = Some p \<Longrightarrow>
     length (kept_digits s) = 10 \<and> p = format_phone (kept_digits s)"
  by (auto simp: normalize_phone_kept split: if_splits)

lemma normalize_phone_format:
  assumes "length r = 10" "\<forall>c\<in>set r. isdigit c"
  shows "normalize_phone (Some (format_phone r)) = Some (format_phone r)"
proof -
  have "kept_digits (Some (format_phone r)) = r"
    using assms by (simp add: kept_digits_def filter_format_phone)
  then show ?thesis using assms(1) by (simp add: normalize_phone_kept)
qed

lemma normalize_phone_fixed:
  "normalize_phone s = Some p \<Longrightarrow> normalize_phone (Some p) = Some p"
  using normalize_phone_Some [of s p] normalize_phone_format [of "kept_digits s"]
  by (auto dest: kept_digits_digits)

lemma normalize_phone_None: "normalize_phone None = None"
  by (simp add: normalize_phone_kept kept_digits_def)

lemma normalize_phone_nonempty: "normalize_phone s \<noteq> Some []"
  by (auto simp: normalize_phone_kept format_phone_def)

lemmas phone_eval =
  normalize_phone_def re_sub_nondigits_def isdigit_def startswith_def format_phone_def slice_def

text \<open>
  C1.  For every input \<open>s\<close>, a string or \<open>None\<close>: with \<open>r\<close> the digits of \<open>s\<close> in their
  order, less a leading \<open>1\<close> when there are eleven of them and the first is \<open>1\<close>,
  \<open>normalize_phone s\<close> is the twelve characters \<open>r0 r1 r2 . r3 r4 r5 . r6 r7 r8 r9\<close> when
  \<open>r\<close> has exactly ten digits, and \<open>None\<close> for every other count.  The function is
  total on its input type: none of its operations can raise.
\<close>

theorem normalize_phone_spec:
  "normalize_phone s =
     (let r = kept_digits s
      in if length r = 10
         then Some [r!0, r!1, r!2, CHR ''.'', r!3, r!4, r!5, CHR ''.'', r!6, r!7, r!8, r!9]
         else None)"
proof (cases "length (kept_digits s) = 10")
  case True
  then show ?thesis
    using format_phone_10 [OF True] by (simp add: normalize_phone_kept Let_def)
next
  case False
  then show ?thesis by (simp add: normalize_phone_kept Let_def)
qed

theorem normalize_phone_spec_witness:
  "normalize_phone (Some ''+1 (555) 123-4567'') = Some ''555.123.4567'' \<and>
   normalize_phone (Some ''555-1234'') = None \<and> normalize_phone None = None"
  using normalize_phone_spec [of "Some ''+1 (555) 123-4567''"]
    normalize_phone_spec [of "Some ''555-1234''"] normalize_phone_spec [of None]
  by (simp add: kept_digits_def isdigit_def)

text \<open>
  C10.  \<open>normalize_phone\<close> is idempotent on its successful output: when it returns a
  phone \<open>p\<close> for a string \<open>s\<close>, it returns \<open>p\<close> again for \<open>p\<close>.  Equivalently, every
  string of the form \<open>DDD.DDD.DDDD\<close>, which is \<open>format_phone r\<close> for ten digits
  \<open>r\<close>, is a fixed point.
\<close>

theorem normalize_phone_idempotent:
  "(normalize_phone (Some s) = Some p \<longrightarrow> normalize_phone (Some p) = Some p) \<and>
   (length r = 10 \<and> list_all isdigit r \<longrightarrow>
      normalize_phone (Some (format_phone r)) = Some (format_phone r))"
proof (intro conjI impI)
  assume h: "normalize_phone (Some s) = Some p"
  have l: "length (kept_digits (Some s)) = 10" and p: "p = format_phone (kept_digits (Some s))"
    using normalize_phone_Some [OF h] by simp_all
  have d: "\<forall>c\<in>set (kept_digits (Some s)). isdigit c"
    by (simp add: kept_digits_digits)
  show "normalize_phone (Some p) = Some p"
    unfolding p by (rule normalize_phone_format [OF l d])
next
  assume "length r = 10 \<and> list_all isdigit r"
  then show "normalize_phone (Some (format_phone r)) = Some (format_phone r)"
    by (simp add: normalize_phone_format list_all_iff)
qed

theorem normalize_phone_idempotent_witness:
  "normalize_phone (Some ''+1 (555) 123-4567'') = Some ''555.123.4567'' \<and>
   normalize_phone (Some ''555.123.4567'') = Some ''555.123.4567'' \<and>
   format_phone ''5551234567'' = ''555.123.4567''"
proof -
  have h: "normalize_phone (Some ''+1 (555) 123-4567'') = Some ''555.123.4567''"
    by (simp add: phone_eval)
  have f: "format_phone ''5551234567'' = ''555.123.4567''"
    by (simp add: format_phone_def slice_def)
  show ?thesis
    using h f normalize_phone_idempotent [of "''+1 (555) 123-4567''" "''555.123.4567''" "''5551234567''"]
    by simp
qed

section \<open>Properties of the global email-to-phone map\<close>

lemma filter_isdigit_dropWhile: "filter isdigit (dropWhile isspace xs) = filter isdigit xs"
  by (induction xs) (auto simp: isdigit_def isspace_def)

lemma filter_isdigit_strip: "filter isdigit (strip s) = filter isdigit s"
proof -
  have "filter isdigit (rev (dropWhile isspace (rev (dropWhile isspace s)))) =
        rev (filter isdigit (dropWhile isspace (rev (dropWhile isspace s))))"
    by (simp add: rev_filter)
  also have "\<dots> = filter isdigit s"
    by (simp add: filter_isdigit_dropWhile rev_filter [symmetric])
  finally show ?thesis by (simp add: strip_def strip_chars_def)
qed

lemma index_row_text:
  assumes "text_fields row"
  shows "index_row m row =
     Inr (if email_key row \<noteq> [] \<and> length (phone_digits row) = 10 \<and> m (email_key row) = None
          then m(email_key row \<mapsto> format_phone (phone_digits row)) else m)"
proof -
  obtain e p where "get_str row ''email'' = Str e" "get_str row ''phone'' = Str p"
    using assms by (auto simp: text_fields_def is_str_def split: cell.splits)
  then show ?thesis
    by (simp add: index_row_def strip_val_def email_key_def phone_digits_def cell_text_def
        re_sub_nondigits_def filter_isdigit_strip Let_def)
qed

lemma index_row_Inr:
  assumes "index_row m row = Inr m'"
  shows "text_fields row"
  using assms
  by (auto simp: index_row_def strip_val_def text_fields_def is_str_def Let_def
      split: cell.splits sum.splits)

lemma index_rows_text:
  assumes "list_all text_fields rows"
  shows "index_rows m rows =
     Inr (\<lambda>k. case m k of Some v \<Rightarrow> Some v | None \<Rightarrow> first_phone k rows)"
  using assms
proof (induction rows arbitrary: m)
  case Nil
  show ?case by (auto simp: first_phone_def fun_eq_iff split: option.splits)
next
  case (Cons row rows)
  have t: "text_fields row" and ts: "list_all text_fields rows" using Cons.prems by simp_all
  show ?case
    unfolding index_rows.simps index_row_text [OF t] sum.case Cons.IH [OF ts]
    by (rule arg_cong [where f = Inr], rule ext)
       (auto simp: first_phone_def enters_index_def split: option.splits)
qed

lemma index_rows_append:
  "index_rows m (xs @ ys) =
     (case index_rows m xs of Inl e \<Rightarrow> Inl e | Inr m' \<Rightarrow> index_rows m' ys)"
  by (induction xs arbitrary: m) (auto split: sum.splits)

lemma index_files_readable:
  assumes "list_all (\<lambda>f. read_error f = None) fs" "list_all text_fields (all_rows fs)"
  shows "index_files m fs = index_rows m (all_rows fs)"
  using assms
proof (induction fs arbitrary: m)
  case Nil
  then show ?case by (simp add: all_rows_def)
next
  case (Cons f fs)
  have a: "all_rows (f # fs) = read_rows f @ all_rows fs" by (simp add: all_rows_def)
  have t1: "list_all text_fields (read_rows f)" and t2: "list_all text_fields (all_rows fs)"
    using Cons.prems(2) by (simp_all add: a)
  have r1: "read_error f = None" and r2: "list_all (\<lambda>f. read_error f = None) fs"
    using Cons.prems(1) by simp_all
  show ?case
    by (simp add: a index_rows_append index_file_def r1 index_rows_text [OF t1]
        Cons.IH [OF r2 t2])
qed

lemma build_readable:
  assumes "readable csv_files"
  shows "build_global_email_phone_map csv_files =
           Inr (\<lambda>k. first_phone k (all_rows csv_files))"
  using assms
  by (simp add: readable_def build_global_email_phone_map_def index_files_readable
      index_rows_text)

lemma first_phone_at:
  assumes "i < length rows" "enters_index k (rows ! i)" "k \<noteq> []"
    and "\<forall>h<i. \<not> enters_index k (rows ! h)"
  shows "first_phone k rows = Some (format_phone (phone_digits (rows ! i)))"
proof -
  have "find (enters_index k) rows = Some (rows ! i)"
    unfolding find_Some_iff using assms by blast
  then show ?thesis using assms(3) by (simp add: first_phone_def)
qed

lemma people_csv_rows:
  "all_rows [people_csv] =
     [[(Some ''email'', Str ''A@X.com ''), (Some ''phone'', Str ''(555) 123-4567'')],
      [(Some ''email'', Str ''a@x.com''), (Some ''phone'', Str ''555 999 8888'')],
      [(Some ''email'', Str ''b@x.com''), (Some ''phone'', Str ''1 555 999 8888'')]]"
  by code_simp

lemma people_csv_readable: "readable [people_csv]"
  by code_simp

text \<open>
  C2.  The index builder is first-valid-wins.  Over files that can be read and whose
  \<open>email\<close> and \<open>phone\<close> fields hold strings, with the records taken in file order and
  then row order, the builder returns a map that holds, for every non-empty EmailKey,
  the formatted phone of the first record with that key and a ten-digit phone, and
  nothing for a key no such record has.  So of two records that share an EmailKey and
  both have ten-digit phones, the earlier one, when none before it enters the index
  under that key, is the one whose phone the map holds, whatever the later one's phone
  is; and a map, by its type, holds at most one phone for an email.
\<close>

theorem build_first_valid_wins:
  assumes "readable csv_files"
  shows "\<exists>m. build_global_email_phone_map csv_files = Inr m \<and>
           (\<forall>k. m k = first_phone k (all_rows csv_files)) \<and>
           (\<forall>i j k. i < j \<and> j < length (all_rows csv_files) \<and> k \<noteq> [] \<and>
                enters_index k (all_rows csv_files ! i) \<and>
                enters_index k (all_rows csv_files ! j) \<and>
                (\<forall>h<i. \<not> enters_index k (all_rows csv_files ! h))
              \<longrightarrow> m k = Some (format_phone (phone_digits (all_rows csv_files ! i))))"
proof -
  let ?m = "\<lambda>k. first_phone k (all_rows csv_files)"
  have "build_global_email_phone_map csv_files = Inr ?m"
    by (rule build_readable [OF assms])
  moreover have "?m k = Some (format_phone (phone_digits (all_rows csv_files ! i)))"
    if "i < j" "j < length (all_rows csv_files)" "k \<noteq> []"
      "enters_index k (all_rows csv_files ! i)"
      "\<forall>h<i. \<not> enters_index k (all_rows csv_files ! h)" for i j k
    using that by (intro first_phone_at) simp_all
  ultimately show ?thesis by blast
qed

theorem build_first_valid_wins_witness:
  "readable [people_csv] \<and>
   (\<exists>m. build_global_email_phone_map [people_csv] = Inr m \<and>
        m ''a@x.com'' = Some ''555.123.4567'' \<and> m ''b@x.com'' = None)"
proof -
  obtain m where m: "build_global_email_phone_map [people_csv] = Inr m"
    and k: "\<forall>k. m k = first_phone k (all_rows [people_csv])"
    using build_first_valid_wins [OF people_csv_readable] by blast
  have "first_phone ''a@x.com'' (all_rows [people_csv]) = Some ''555.123.4567''"
    by code_simp
  moreover have "first_phone ''b@x.com'' (all_rows [people_csv]) = None"
    by code_simp
  ultimately show ?thesis using m k people_csv_readable by auto
qed

text \<open>
  C4.  The builder's validity rule is the strict one: a record changes the map only
  when its EmailKey is not empty and its phone field, with the non-digits removed, is
  exactly ten digits long (and the key is not yet in the map).  A record whose phone
  strips to eleven digits of which the first is \<open>1\<close> adds no entry, although
  \<open>normalize_phone\<close> accepts the same string and returns its last ten digits.
\<close>

theorem builder_strict_ten_digits:
  "(\<forall>m'. index_row m row = Inr m' \<and> m' \<noteq> m \<longrightarrow>
       email_key row \<noteq> [] \<and> length (phone_digits row) = 10 \<and> m (email_key row) = None \<and>
       m' = m(email_key row \<mapsto> format_phone (phone_digits row))) \<and>
   (get_str row ''phone'' = Str p \<and> length (filter isdigit p) = 11 \<and>
    hd (filter isdigit p) = CHR ''1'' \<longrightarrow>
       (\<forall>m'. index_row m row = Inr m' \<longrightarrow> m' = m) \<and>
       normalize_phone (Some p) = Some (format_phone (tl (filter isdigit p))))"
proof -
  have a: "\<forall>m'. index_row m row = Inr m' \<and> m' \<noteq> m \<longrightarrow>
       email_key row \<noteq> [] \<and> length (phone_digits row) = 10 \<and> m (email_key row) = None \<and>
       m' = m(email_key row \<mapsto> format_phone (phone_digits row))"
  proof (intro allI impI, elim conjE)
    fix m' assume r: "index_row m row = Inr m'" and n: "m' \<noteq> m"
    have t: "text_fields row" by (rule index_row_Inr [OF r])
    show "email_key row \<noteq> [] \<and> length (phone_digits row) = 10 \<and> m (email_key row) = None \<and>
       m' = m(email_key row \<mapsto> format_phone (phone_digits row))"
      using r n unfolding index_row_text [OF t] by (auto split: if_splits)
  qed
  have b: "(\<forall>m'. index_row m row = Inr m' \<longrightarrow> m' = m) \<and>
       normalize_phone (Some p) = Some (format_phone (tl (filter isdigit p)))"
    if p: "get_str row ''phone'' = Str p" and l: "length (filter isdigit p) = 11"
      and h: "hd (filter isdigit p) = CHR ''1''" for p
  proof -
    have d: "phone_digits row = filter isdigit p"
      by (simp add: phone_digits_def p cell_text_def)
    have "\<forall>m'. index_row m row = Inr m' \<longrightarrow> m' = m"
      using a d l by auto
    moreover have "kept_digits (Some p) = tl (filter isdigit p)"
      by (simp add: kept_digits_def l h)
    then have "normalize_phone (Some p) = Some (format_phone (tl (filter isdigit p)))"
      by (simp add: normalize_phone_kept l)
    ultimately show ?thesis by blast
  qed
  show ?thesis using a b by blast
qed

theorem builder_strict_ten_digits_witness:
  "index_row Map.empty [(Some ''email'', Str ''b@x.com''), (Some ''phone'', Str ''1 555 999 8888'')]
     = Inr Map.empty \<and>
   normalize_phone (Some ''1 555 999 8888'') = Some ''555.999.8888''"
proof -
  let ?row = "[(Some ''email'', Str ''b@x.com''), (Some ''phone'', Str ''1 555 999 8888'')]"
  have g: "get_str ?row ''phone'' = Str ''1 555 999 8888''"
    by code_simp
  have d: "filter isdigit ''1 555 999 8888'' = ''15559998888''"
    by code_simp
  have t: "text_fields ?row"
    by code_simp
  obtain m' where m': "index_row Map.empty ?row = Inr m'"
    using index_row_text [OF t] by blast
  have "m' = Map.empty \<and> normalize_phone (Some ''1 555 999 8888'') = Some (format_phone (tl ''15559998888''))"
    using builder_strict_ten_digits [of Map.empty ?row "''1 555 999 8888''"] g m'
    unfolding d by simp
  then show ?thesis using m' by (simp add: format_phone_def slice_def)
qed

section \<open>Properties of the backfiller\<close>

lemma fix_row_fixable:
  assumes "fixable p e row"
  shows "fix_row p e g row = Inr (backfilled p e g row)"
  using assms normalize_phone_nonempty
  by (auto simp: fix_row_def fixable_def revalidated_def cell_email_key_def backfilled_def
      normalize_phone_cell_def Let_def split: cell.splits option.splits)

lemma fix_row_Inr: "fix_row p e g row = Inr row' \<Longrightarrow> fixable p e row"
  by (auto simp: fix_row_def fixable_def normalize_phone_cell_def Let_def
      split: cell.splits option.splits if_splits sum.splits)

lemma fix_row_raises: "\<not> fixable p e row \<Longrightarrow> isl (fix_row p e g row)"
  using fix_row_Inr [of p e g row] by (cases "fix_row p e g row") auto

lemma each_row_map:
  assumes "list_all (\<lambda>row. f row = Inr (h row)) rows"
  shows "each_row f rows = Inr (map h rows)"
  using assms by (induction rows) auto

lemma each_row_raises:
  assumes "\<not> list_all (\<lambda>row. \<not> isl (f row)) rows"
  shows "isl (each_row f rows)"
  using assms by (induction rows) (auto split: sum.splits)

lemma qa_eq:
  assumes "header_index ''phone'' header = Some p" "header_index ''email'' header = Some e"
  shows "if list_all (fixable p e) rows
         then qa_phone_numbers_with_global_map rows header g = Inr (map (backfilled p e g) rows)
         else isl (qa_phone_numbers_with_global_map rows header g)"
proof (cases "list_all (fixable p e) rows")
  case True
  then have "list_all (\<lambda>row. fix_row p e g row = Inr (backfilled p e g row)) rows"
    by (simp add: list_all_iff fix_row_fixable)
  then show ?thesis
    using True by (simp add: qa_phone_numbers_with_global_map_def assms each_row_map)
next
  case False
  then have "\<not> list_all (\<lambda>row. \<not> isl (fix_row p e g row)) rows"
    by (auto simp: list_all_iff intro: fix_row_raises)
  then show ?thesis
    using False by (simp add: qa_phone_numbers_with_global_map_def assms each_row_raises)
qed






text \<open>
  C9.  The backfiller is frame-preserving.  With a phone and an email column found, it
  returns for every row sequence on which its loop body does not raise, and what it
  returns has the rows of the input in number and order, each of its own length and
  equal to the input row in every cell outside the phone column.
\<close>

theorem backfill_frame:
  assumes "header_index ''phone'' header = Some p" "header_index ''email'' header = Some e"
  shows "case qa_phone_numbers_with_global_map rows header g of
           Inl _ \<Rightarrow> \<not> list_all (fixable p e) rows
         | Inr out \<Rightarrow>
             length out = length rows \<and>
             (\<forall>i<length rows.
                length (out ! i) = length (rows ! i) \<and>
                (\<forall>j. j \<noteq> p \<longrightarrow> out ! i ! j = rows ! i ! j))"
proof (cases "list_all (fixable p e) rows")
  case True
  then have "qa_phone_numbers_with_global_map rows header g = Inr (map (backfilled p e g) rows)"
    using qa_eq [OF assms, of rows g] by simp
  then show ?thesis by (simp add: backfilled_def)
next
  case False
  then show ?thesis
    using qa_eq [OF assms, of rows g]
    by (cases "qa_phone_numbers_with_global_map rows header g") simp_all
qed

theorem backfill_frame_witness:
  "header_index ''phone'' [''name'', ''Phone'', ''Email''] = Some 1 \<and>
   header_index ''email'' [''name'', ''Phone'', ''Email''] = Some 2 \<and>
   qa_phone_numbers_with_global_map
     [[Str ''Ann'', Str ''bad'', Str ''a@x.com''], [Str ''Bob'', NoneV, Str ''b@x.com'']]
     [''name'', ''Phone'', ''Email''] [''a@x.com'' \<mapsto> ''111.222.3333'']
   = Inr [[Str ''Ann'', Str ''111.222.3333'', Str ''a@x.com''], [Str ''Bob'', Str [], Str ''b@x.com'']]"
proof -
  have p: "header_index ''phone'' [''name'', ''Phone'', ''Email''] = Some 1" by code_simp
  have e: "header_index ''email'' [''name'', ''Phone'', ''Email''] = Some 2" by code_simp
  have "qa_phone_numbers_with_global_map
     [[Str ''Ann'', Str ''bad'', Str ''a@x.com''], [Str ''Bob'', NoneV, Str ''b@x.com'']]
     [''name'', ''Phone'', ''Email''] [''a@x.com'' \<mapsto> ''111.222.3333'']
   = Inr [[Str ''Ann'', Str ''111.222.3333'', Str ''a@x.com''], [Str ''Bob'', Str [], Str ''b@x.com'']]"
    by code_simp
  then show ?thesis
    using p e backfill_frame [OF p e,
        of "[[Str ''Ann'', Str ''bad'', Str ''a@x.com''], [Str ''Bob'', NoneV, Str ''b@x.com'']]"
           "[''a@x.com'' \<mapsto> ''111.222.3333'']"]
    by simp
qed

section \<open>Properties of the row transformer\<close>

lemma set_update_subset: "set (AList.update k v al) \<subseteq> insert (k, v) (set al)"
  by (induction al) auto

lemma plain_update:
  assumes "plain d" "is_str v \<or> v = NoneV"
  shows "plain (AList.update (Some k) v d)"
  using assms set_update_subset [of "Some k" v d]
  unfolding plain_def values_plain_def by (auto simp: distinct_update)

lemma plain_fold_Str: "plain d \<Longrightarrow> plain (fold (\<lambda>(k, v). AList.update (Some k) (Str v)) kvs d)"
  by (induction kvs arbitrary: d) (auto simp: plain_update is_str_def)

lemma plain_fold_NoneV: "plain d \<Longrightarrow> plain (fold (\<lambda>k. AList.update (Some k) NoneV) ks d)"
  by (induction ks arbitrary: d) (auto simp: plain_update)

lemma update_fresh: "k \<notin> fst ` set al \<Longrightarrow> AList.update k v al = al @ [(k, v)]"
  by (induction al) auto

lemma dict_reader_short:
  assumes "length line \<le> length names"
  shows "plain (dict_reader names line)"
proof -
  let ?d = "fold (\<lambda>(k, v). AList.update (Some k) (Str v)) (zip names line) []"
  have p: "plain ?d" by (rule plain_fold_Str) (simp add: plain_def values_plain_def)
  have q: "plain (fold (\<lambda>k. AList.update (Some k) NoneV) (drop (length line) names) ?d)"
    by (rule plain_fold_NoneV [OF p])
  show ?thesis using assms p q by (simp add: dict_reader_def Let_def)
qed

lemma dict_reader_long:
  assumes "length names < length line"
  shows "\<exists>d l. plain d \<and> dict_reader names line = d @ [(None, Lst l)]"
proof -
  let ?d = "fold (\<lambda>(k, v). AList.update (Some k) (Str v)) (zip names line) []"
  have p: "plain ?d" by (rule plain_fold_Str) (simp add: plain_def values_plain_def)
  then have "None \<notin> fst ` set ?d" by (force simp: plain_def values_plain_def)
  then have "dict_reader names line = ?d @ [(None, Lst (drop (length names) line))]"
    using assms by (simp add: dict_reader_def Let_def update_fresh)
  then show ?thesis using p by blast
qed

lemma plain_filter: "plain d \<Longrightarrow> plain (filter P d)"
  by (auto simp: plain_def values_plain_def distinct_map_filter)

lemma rename_keys_append:
  "rename_keys (xs @ ys) d = (case rename_keys xs d of Inl e \<Rightarrow> Inl e | Inr d' \<Rightarrow> rename_keys ys d')"
  by (induction xs arbitrary: d) (auto split: sum.splits)

lemma rename_keys_returns:
  assumes "distinct ks" "None \<notin> set ks" "\<forall>key\<in>set ks. has_string key \<longrightarrow> key \<in> fst ` set d"
  shows "\<exists>d'. rename_keys ks d = Inr d' \<and> snd ` set d' \<subseteq> snd ` set d"
  using assms
proof (induction ks arbitrary: d)
  case Nil
  then show ?case by simp
next
  case (Cons key ks)
  obtain k where k: "key = Some k" using Cons.prems(2) by (cases key) auto
  show ?case
  proof (cases "str_in ''string'' k")
    case True
    then have "key \<in> fst ` set d" using Cons.prems(3) k by (simp add: has_string_def)
    then obtain v where v: "map_of d key = Some v"
      by (metis domD dom_map_of_conv_image_fst)
    let ?d1 = "AList.update (Some (clean_name k)) v (AList.delete key d)"
    have r: "rename_key key d = Inr ?d1" using True k v by (simp add: rename_key_def)
    have in_d: "(key, v) \<in> set d" by (rule map_of_SomeD [OF v])
    have keys: "\<forall>key'\<in>set ks. has_string key' \<longrightarrow> key' \<in> fst ` set ?d1"
    proof (intro ballI impI)
      fix key' assume a: "key' \<in> set ks" "has_string key'"
      then have "key' \<in> fst ` set d" "key' \<noteq> key" using Cons.prems(1,3) by auto
      then have "key' \<in> fst ` set (AList.delete key d)" by (auto simp: AList.delete_eq)
      then show "key' \<in> fst ` set ?d1" by (simp add: dom_update)
    qed
    have vals: "snd ` set ?d1 \<subseteq> snd ` set d"
    proof -
      have "set ?d1 \<subseteq> insert (Some (clean_name k), v) (set (AList.delete key d))"
        by (rule set_update_subset)
      moreover have "set (AList.delete key d) \<subseteq> set d" by (auto simp: AList.delete_eq)
      ultimately show ?thesis using in_d by force
    qed
    obtain d' where "rename_keys ks ?d1 = Inr d'" "snd ` set d' \<subseteq> snd ` set ?d1"
      using Cons.IH [of ?d1] Cons.prems(1,2) keys by auto
    then show ?thesis using r vals by auto
  next
    case False
    then have r: "rename_key key d = Inr d" using k by (simp add: rename_key_def)
    obtain d' where "rename_keys ks d = Inr d'" "snd ` set d' \<subseteq> snd ` set d"
      using Cons.IH [of d] Cons.prems by auto
    then show ?thesis using r by auto
  qed
qed

lemma convert_field_key: "convert_field serial kv = Inr (k, c) \<Longrightarrow> fst kv = Some k"
  by (auto simp: convert_field_def split: option.splits sum.splits if_splits)

lemma each_row_Cons_Inr:
  "each_row f (x # xs) = Inr out \<longleftrightarrow> (\<exists>y ys. f x = Inr y \<and> each_row f xs = Inr ys \<and> out = y # ys)"
  by (auto split: sum.splits)

lemma convert_fields_keys:
  "each_row (convert_field serial) d = Inr out \<Longrightarrow> map fst d = map (\<lambda>kv. Some (fst kv)) out"
proof (induction d arbitrary: out)
  case Nil
  then show ?case by simp
next
  case (Cons kv d)
  then obtain y ys where y: "convert_field serial kv = Inr y"
    and ys: "each_row (convert_field serial) d = Inr ys" and out: "out = y # ys"
    unfolding each_row_Cons_Inr by blast
  have "fst kv = Some (fst y)" using convert_field_key [of serial kv "fst y" "snd y"] y by simp
  then show ?case using Cons.IH [OF ys] out by simp
qed

lemma rename_key_keys:
  assumes "rename_key key d = Inr d'"
  shows "fst ` set d' \<subseteq> (if has_string key then (fst ` set d - {key}) \<union> cleaned {key} else fst ` set d)"
proof (cases key)
  case None
  then show ?thesis using assms by (simp add: rename_key_def)
next
  case (Some k)
  show ?thesis
  proof (cases "str_in ''string'' k")
    case True
    then obtain v where d': "d' = AList.update (Some (clean_name k)) v (AList.delete key d)"
      using assms Some by (auto simp: rename_key_def Let_def split: option.splits)
    have "fst ` set (AList.delete key d) = fst ` set d - {key}"
      by (auto simp: AList.delete_eq)
    then show ?thesis using True Some
      by (auto simp: d' dom_update has_string_def cleaned_def)
  next
    case False
    then show ?thesis using assms Some by (simp add: rename_key_def has_string_def)
  qed
qed

lemma rename_keys_keys:
  assumes "rename_keys ks d = Inr d'"
  shows "fst ` set d' \<subseteq> {key \<in> fst ` set d. key \<notin> set ks \<or> \<not> has_string key} \<union> cleaned (set ks)"
  using assms
proof (induction ks arbitrary: d)
  case Nil
  then show ?case by auto
next
  case (Cons key ks)
  then obtain d1 where d1: "rename_key key d = Inr d1" and r: "rename_keys ks d1 = Inr d'"
    by (auto split: sum.splits)
  have s1: "fst ` set d1 \<subseteq> (if has_string key then (fst ` set d - {key}) \<union> cleaned {key} else fst ` set d)"
    by (rule rename_key_keys [OF d1])
  have s2: "fst ` set d' \<subseteq> {key \<in> fst ` set d1. key \<notin> set ks \<or> \<not> has_string key} \<union> cleaned (set ks)"
    by (rule Cons.IH [OF r])
  have c: "cleaned (insert key (set ks)) = cleaned {key} \<union> cleaned (set ks)"
    by (auto simp: cleaned_def)
  show ?case
  proof
    fix x assume "x \<in> fst ` set d'"
    then consider "x \<in> cleaned (set ks)" | "x \<in> fst ` set d1" "x \<notin> set ks \<or> \<not> has_string x"
      using s2 by blast
    then show "x \<in> {key' \<in> fst ` set d. key' \<notin> set (key # ks) \<or> \<not> has_string key'} \<union> cleaned (set (key # ks))"
    proof cases
      case 1
      then show ?thesis by (simp add: c)
    next
      case 2
      show ?thesis
      proof (cases "has_string key")
        case True
        then have "x \<in> fst ` set d - {key} \<or> x \<in> cleaned {key}" using s1 2(1) by auto
        then show ?thesis using 2(2) by (auto simp: c)
      next
        case False
        then have "x \<in> fst ` set d" using s1 2(1) by auto
        then show ?thesis using 2(2) False by auto
      qed
    qed
  qed
qed


lemma convert_field_plain:
  assumes "is_str v \<or> v = NoneV"
  shows "convert_field serial (Some k, v) = Inr (k, converted serial k v)"
  using assms
  by (auto simp: convert_field_def converted_def normalize_phone_cell_def is_str_def Let_def
      split: cell.splits)

lemma convert_fields_plain:
  assumes "values_plain d"
  shows "each_row (convert_field serial) d =
           Inr (map (\<lambda>kv. (the (fst kv), converted serial (the (fst kv)) (snd kv))) d)"
proof (rule each_row_map)
  show "list_all (\<lambda>kv. convert_field serial kv =
          Inr (the (fst kv), converted serial (the (fst kv)) (snd kv))) d"
    unfolding list_all_iff
  proof
    fix kv assume "kv \<in> set d"
    then obtain k where "fst kv = Some k" "is_str (snd kv) \<or> snd kv = NoneV"
      using assms by (auto simp: values_plain_def)
    then show "convert_field serial kv = Inr (the (fst kv), converted serial (the (fst kv)) (snd kv))"
      using convert_field_plain [of "snd kv" serial k] by (cases kv) auto
  qed
qed

lemma plain_keys:
  assumes "plain d"
  shows "distinct (map fst d) \<and> None \<notin> set (map fst d) \<and>
         (\<forall>kv\<in>set d. is_str (snd kv) \<or> snd kv = NoneV)"
  using assms by (force simp: plain_def values_plain_def)

lemma renamed_row_short:
  assumes "length line \<le> length names"
  shows "\<exists>d. renamed_row (dict_reader names line) = Inr d \<and> values_plain d \<and>
             snd ` set d \<subseteq> snd ` set (dict_reader names line)"
proof -
  let ?f = "filter (\<lambda>(k, v). \<not> excluded k) (dict_reader names line)"
  have p: "plain ?f" by (rule plain_filter [OF dict_reader_short [OF assms]])
  have 1: "distinct (map fst ?f)" using plain_keys [OF p] by (rule conjunct1)
  have 2: "None \<notin> set (map fst ?f)" using plain_keys [OF p] by simp
  have 4: "\<forall>kv\<in>set ?f. is_str (snd kv) \<or> snd kv = NoneV" using plain_keys [OF p] by simp
  have 3: "\<forall>key\<in>set (map fst ?f). has_string key \<longrightarrow> key \<in> fst ` set ?f" by simp
  obtain d where d: "rename_keys (map fst ?f) ?f = Inr d" and v: "snd ` set d \<subseteq> snd ` set ?f"
    using rename_keys_returns [OF 1 2 3] by (elim exE conjE)
  have rr: "renamed_row (dict_reader names line) = Inr d"
    using d by (simp add: renamed_row_def Let_def)
  have "fst ` set d \<subseteq> {key \<in> fst ` set ?f. key \<notin> set (map fst ?f) \<or> \<not> has_string key} \<union> cleaned (set (map fst ?f))"
    by (rule rename_keys_keys [OF d])
  moreover have "None \<notin> cleaned (set (map fst ?f))" by (simp add: cleaned_def)
  moreover have "None \<notin> fst ` set ?f" using 2 by simp
  ultimately have k: "None \<notin> fst ` set d" by blast
  have vp: "values_plain d"
    unfolding values_plain_def
  proof
    fix kv assume a: "kv \<in> set d"
    then have "fst kv \<in> fst ` set d" by (rule imageI)
    then have n: "fst kv \<noteq> None" using k by metis
    have "snd kv \<in> snd ` set ?f" using a v by blast
    then obtain kv' where kv': "kv' \<in> set ?f" "snd kv' = snd kv" by force
    have "is_str (snd kv') \<or> snd kv' = NoneV" by (rule bspec [OF 4 kv'(1)])
    then have "is_str (snd kv) \<or> snd kv = NoneV" by (simp add: kv'(2))
    then show "fst kv \<noteq> None \<and> (is_str (snd kv) \<or> snd kv = NoneV)" using n by simp
  qed
  have "set ?f \<subseteq> set (dict_reader names line)" by (rule filter_is_subset)
  then have "snd ` set ?f \<subseteq> snd ` set (dict_reader names line)" by (rule image_mono)
  then have vs: "snd ` set d \<subseteq> snd ` set (dict_reader names line)"
    using v by (rule order_trans [rotated])
  show ?thesis using rr vp vs by (intro exI [of _ d] conjI)
qed

lemma renamed_row_long:
  assumes "length names < length line"
  shows "renamed_row (dict_reader names line) = Inl TypeError"
proof -
  obtain d0 l where p: "plain d0" and r: "dict_reader names line = d0 @ [(None, Lst l)]"
    using dict_reader_long [OF assms] by blast
  let ?g = "filter (\<lambda>(k, v). \<not> excluded k) d0"
  let ?f = "?g @ [(None, Lst l)]"
  have f: "filter (\<lambda>(k, v). \<not> excluded k) (dict_reader names line) = ?f"
    by (simp add: r excluded_def)
  have p0: "plain ?g" by (rule plain_filter [OF p])
  have 1: "distinct (map fst ?g)" and 2: "None \<notin> set (map fst ?g)"
    using plain_keys [OF p0] by blast+
  have 3: "\<forall>key\<in>set (map fst ?g). has_string key \<longrightarrow> key \<in> fst ` set ?f" by auto
  obtain d where d: "rename_keys (map fst ?g) ?f = Inr d"
    using rename_keys_returns [OF 1 2 3] by blast
  have "rename_keys (map fst ?g @ [None]) ?f = Inl TypeError"
    unfolding rename_keys_append d by (simp add: rename_key_def)
  then show ?thesis unfolding renamed_row_def Let_def f by simp
qed

text \<open>
  C5, as the code has it.  The exclusion set is tested against the names the record
  came with, before any name is cleaned.  Every name the transformer emits is either
  the name of an input field that is not in the exclusion set and does not contain
  \<open>string\<close>, or the cleaned name of an input field that is not in the exclusion set
  and does contain \<open>string\<close>.  The cleaned name itself is not tested.
\<close>

theorem emitted_names_not_excluded_raw:
  assumes "transform_row serial row = Inr out" "n \<in> fst ` set out"
  shows "(Some n \<in> fst ` set row \<and> n \<notin> set exclude_columns \<and> \<not> str_in ''string'' n) \<or>
         (\<exists>k. Some k \<in> fst ` set row \<and> k \<notin> set exclude_columns \<and> str_in ''string'' k \<and> n = clean_name k)"
proof -
  let ?f = "filter (\<lambda>(k, v). \<not> excluded k) row"
  obtain d where d: "rename_keys (map fst ?f) ?f = Inr d"
    and o: "each_row (convert_field serial) d = Inr out"
    using assms(1) by (auto simp: transform_row_def renamed_row_def Let_def split: sum.splits)
  have "Some n \<in> set (map (\<lambda>kv. Some (fst kv)) out)" using assms(2) by auto
  then have "Some n \<in> fst ` set d" using convert_fields_keys [OF o] by (metis list.set_map)
  then have "Some n \<in> {key \<in> fst ` set ?f. key \<notin> set (map fst ?f) \<or> \<not> has_string key} \<union> cleaned (set (map fst ?f))"
    using rename_keys_keys [OF d] by blast
  moreover have "fst ` set ?f = {key \<in> fst ` set row. \<not> excluded key}" by force
  ultimately show ?thesis
    by (auto simp: cleaned_def has_string_def excluded_def)
qed


theorem emitted_names_not_excluded_raw_witness:
  "transform_row no_dates (dict_reader [''status'', ''signupdatestring''] [''ok'', ''soon''])
     = Inr [(''signupdate'', Str ''soon'')] \<and>
   ''signupdate'' = clean_name ''signupdatestring''"
proof -
  have t: "transform_row no_dates (dict_reader [''status'', ''signupdatestring''] [''ok'', ''soon''])
     = Inr [(''signupdate'', Str ''soon'')]"
    by code_simp
  have n: "''signupdate'' \<in> fst ` set [(''signupdate'', Str ''soon'')]" by simp
  have c: "''signupdate'' = clean_name ''signupdatestring''" by code_simp
  show ?thesis using emitted_names_not_excluded_raw [OF t n] t c by simp
qed

text \<open>
  The claim as written fails: \<open>startdatestring\<close> is not in the exclusion set, so the field
  is kept, and it is emitted under its cleaned name \<open>startdate\<close>, which is in the set.
\<close>

theorem emits_excluded_cleaned_name:
  "transform_row no_dates
     (dict_reader [''startdate'', ''startdatestring''] [''1735689600'', ''Jan 1''])
     = Inr [(''startdate'', Str ''Jan 1'')] \<and>
   clean_name ''startdatestring'' = ''startdate'' \<and>
   ''startdate'' \<in> set exclude_columns"
  by code_simp




section \<open>Properties of the run over the files\<close>

lemma import_csv_to_sheet_outcome:
  "import_csv_to_sheet serial f g =
     (case prepare serial f g of Inl e \<Rightarrow> Inl e | Inr _ \<Rightarrow> Inr (outcome_of serial g f))"
  by (auto simp: import_csv_to_sheet_def outcome_of_def split: sum.splits option.splits)

lemma import_all_length: "length (import_all serial g fs) = attempted serial g fs"
proof (induction fs)
  case Nil
  then show ?case by (simp add: attempted_def)
next
  case (Cons f fs)
  then show ?case
    by (cases "prepare serial f g")
       (auto simp: attempted_def import_csv_to_sheet_outcome split: option.splits)
qed

lemma import_all_nth:
  "i < length (import_all serial g fs) \<Longrightarrow>
     import_all serial g fs ! i = outcome_of serial g (fs ! i)"
proof (induction fs arbitrary: i)
  case Nil
  then show ?case by simp
next
  case (Cons f fs)
  show ?case
  proof (cases "prepare serial f g")
    case (Inl e)
    then show ?thesis
      using Cons.prems by (simp add: import_csv_to_sheet_outcome outcome_of_def)
  next
    case (Inr grid)
    then show ?thesis
      using Cons.prems Cons.IH by (cases i) (simp_all add: import_csv_to_sheet_outcome)
  qed
qed

lemma first_index_None: "first_index P xs = None \<longleftrightarrow> list_all (\<lambda>x. \<not> P x) xs"
  by (induction xs) auto

lemma unpublished_people_readable: "readable [unpublished_csv, people_csv]"
  by code_simp

text \<open>
  C8, as the code has it.  Once the global map is built, the run attempts the files in
  order and stops at the first file for which an exception is raised before the
  \<open>try\<close> block of \<open>import_csv_to_sheet\<close> (the worksheet cannot be found, cleared or
  added, the file cannot be read, a record cannot be transformed or backfilled): that
  file ends as \<open>Raised\<close> and no later file is attempted.  A failure of the update
  inside the \<open>try\<close> block is reported and does not stop the run: when no file raises
  before its \<open>try\<close> block, every file is attempted, whatever the updates do.
\<close>

theorem publish_failure_isolated:
  assumes "build_global_email_phone_map csv_files = Inr g"
  shows "\<exists>outcomes. main serial csv_files = Inr outcomes \<and>
           length outcomes = attempted serial g csv_files \<and>
           (\<forall>i<length outcomes. outcomes ! i = outcome_of serial g (csv_files ! i)) \<and>
           (list_all (\<lambda>f. \<not> isl (prepare serial f g)) csv_files
              \<longrightarrow> length outcomes = length csv_files)"
proof (intro exI conjI)
  show "main serial csv_files = Inr (import_all serial g csv_files)"
    by (simp add: main_def assms)
  show "length (import_all serial g csv_files) = attempted serial g csv_files"
    by (rule import_all_length)
  show "\<forall>i<length (import_all serial g csv_files).
          import_all serial g csv_files ! i = outcome_of serial g (csv_files ! i)"
    by (simp add: import_all_nth)
  show "list_all (\<lambda>f. \<not> isl (prepare serial f g)) csv_files
          \<longrightarrow> length (import_all serial g csv_files) = length csv_files"
    by (simp add: import_all_length attempted_def first_index_None [symmetric])
qed

theorem publish_failure_isolated_witness:
  "readable [unpublished_csv, people_csv] \<and>
   main no_dates [unpublished_csv, people_csv]
     = Inr [Reported,
            Imported [''email'', ''phone'']
              [[Str ''A@X.com '', Str ''555.123.4567''], [Str ''a@x.com'', Str ''555.999.8888''],
               [Str ''b@x.com'', Str ''555.999.8888'']]]"
proof -
  have m: "main no_dates [unpublished_csv, people_csv]
     = Inr [Reported,
            Imported [''email'', ''phone'']
              [[Str ''A@X.com '', Str ''555.123.4567''], [Str ''a@x.com'', Str ''555.999.8888''],
               [Str ''b@x.com'', Str ''555.999.8888'']]]"
    by code_simp
  show ?thesis
    using publish_failure_isolated [OF build_readable [OF unpublished_people_readable], of no_dates]
      m unpublished_people_readable
    by simp
qed

text \<open>
  The claim as written fails: a failure outside the \<open>try\<close> block is not caught.  The
  first file has a line longer than its header, its transformation raises \<open>TypeError\<close>,
  and the second file is never attempted.
\<close>

theorem transform_failure_aborts_run:
  "main no_dates [ragged_csv, people_csv] = Inr [Raised TypeError]"
  by code_simp

section \<open>Further properties\<close>

text \<open>
  X1.  When the header has no column whose name contains \<open>phone\<close>, or none whose name
  contains \<open>email\<close>, the backfiller returns the rows as they are.
\<close>

theorem backfill_noop_without_columns:
  "header_index ''phone'' header = None \<or> header_index ''email'' header = None \<Longrightarrow>
     qa_phone_numbers_with_global_map rows header g = Inr rows"
  by (auto simp: qa_phone_numbers_with_global_map_def split: option.splits)

theorem backfill_noop_without_columns_witness:
  "header_index ''email'' [''name'', ''Phone''] = None \<and>
   qa_phone_numbers_with_global_map [[Str ''Ann'', Str ''bad'']] [''name'', ''Phone'']
     [''a@x.com'' \<mapsto> ''111.222.3333''] = Inr [[Str ''Ann'', Str ''bad'']]"
proof -
  have e: "header_index ''email'' [''name'', ''Phone''] = None" by code_simp
  show ?thesis
    using e backfill_noop_without_columns [OF disjI2 [OF e], of "[[Str ''Ann'', Str ''bad'']]"
        "[''a@x.com'' \<mapsto> ''111.222.3333'']"]
    by simp
qed

lemma phone_digits_digits: "\<forall>c\<in>set (phone_digits r). isdigit c"
  by (simp add: phone_digits_def)

text \<open>
  X2.  Every phone in the global map is in the normalized form (it normalizes to
  itself), and the empty EmailKey is never in the map.
\<close>

theorem index_values_normalized:
  assumes "readable csv_files"
  shows "\<exists>m. build_global_email_phone_map csv_files = Inr m \<and>
           (\<forall>k v. m k = Some v \<longrightarrow> k \<noteq> [] \<and> normalize_phone (Some v) = Some v)"
proof -
  let ?m = "\<lambda>k. first_phone k (all_rows csv_files)"
  have b: "build_global_email_phone_map csv_files = Inr ?m"
    by (rule build_readable [OF assms])
  have "k \<noteq> [] \<and> normalize_phone (Some v) = Some v" if h: "?m k = Some v" for k v
  proof -
    have k: "k \<noteq> []" using h by (auto simp: first_phone_def split: if_splits)
    then obtain r where r: "find (enters_index k) (all_rows csv_files) = Some r"
      and v: "v = format_phone (phone_digits r)"
      using h by (auto simp: first_phone_def)
    have "enters_index k r" using r by (auto simp: find_Some_iff)
    then have "length (phone_digits r) = 10" by (simp add: enters_index_def)
    then show ?thesis
      using k v normalize_phone_format [OF _ phone_digits_digits, of r] by simp
  qed
  then show ?thesis using b by blast
qed

theorem index_values_normalized_witness:
  "readable [people_csv] \<and>
   (\<exists>m. build_global_email_phone_map [people_csv] = Inr m \<and> m ''a@x.com'' = Some ''555.123.4567'') \<and>
   normalize_phone (Some ''555.123.4567'') = Some ''555.123.4567''"
proof -
  obtain m where m: "build_global_email_phone_map [people_csv] = Inr m"
    and v: "\<forall>k v. m k = Some v \<longrightarrow> k \<noteq> [] \<and> normalize_phone (Some v) = Some v"
    using index_values_normalized [OF people_csv_readable] by blast
  have "build_global_email_phone_map [people_csv] = Inr (\<lambda>k. first_phone k (all_rows [people_csv]))"
    by (rule build_readable [OF people_csv_readable])
  then have "m = (\<lambda>k. first_phone k (all_rows [people_csv]))" using m by simp
  moreover have "first_phone ''a@x.com'' (all_rows [people_csv]) = Some ''555.123.4567''"
    by code_simp
  ultimately have a: "m ''a@x.com'' = Some ''555.123.4567''" by simp
  then have "normalize_phone (Some ''555.123.4567'') = Some ''555.123.4567''" using v by blast
  then show ?thesis using m a people_csv_readable by blast
qed

text \<open>
  X3.  The specification's end-to-end example: of two records with the EmailKey
  \<open>a@x.com\<close>, the first with the phone \<open>(555) 123-4567\<close> and the second with \<open>bad\<close>,
  the global map holds \<open>555.123.4567\<close> for the key and both rows are written with that
  phone; a third record with an empty phone and an email the map lacks is written with
  the empty string.
\<close>

theorem end_to_end_scenario:
  "(case build_global_email_phone_map [scenario_csv] of
      Inl e \<Rightarrow> False
    | Inr m \<Rightarrow> m ''a@x.com'' = Some ''555.123.4567'' \<and> m ''z@x.com'' = None) \<and>
   main no_dates [scenario_csv] =
     Inr [Imported [''email'', ''phone'']
            [[Str ''A@X.com'', Str ''555.123.4567''], [Str ''a@x.com'', Str ''555.123.4567''],
             [Str ''z@x.com'', Str []]]]"
  by code_simp

lemma transform_row_short:
  assumes "length line \<le> length names"
  shows "\<exists>d. renamed_row (dict_reader names line) = Inr d \<and> values_plain d \<and>
             transform_row serial (dict_reader names line) =
               Inr (map (\<lambda>kv. (the (fst kv), converted serial (the (fst kv)) (snd kv))) d)"
proof -
  obtain d where d: "renamed_row (dict_reader names line) = Inr d" and vp: "values_plain d"
    using renamed_row_short [OF assms] by blast
  have "transform_row serial (dict_reader names line) =
          Inr (map (\<lambda>kv. (the (fst kv), converted serial (the (fst kv)) (snd kv))) d)"
    by (simp add: transform_row_def d convert_fields_plain [OF vp])
  then show ?thesis using d vp by blast
qed

lemma converted_phone:
  assumes "str_in ''phone'' (lower k)" "\<not> str_in ''date'' (lower k)"
  shows "converted serial k v = NoneV \<or>
         (\<exists>q. converted serial k v = Str q \<and> normalize_phone (Some q) = Some q)"
proof (cases "normalize_phone (case v of Str s \<Rightarrow> Some s | _ \<Rightarrow> None)")
  case None
  then show ?thesis using assms by (simp add: converted_def to_cell_def)
next
  case (Some q)
  then have "normalize_phone (Some q) = Some q" by (rule normalize_phone_fixed)
  then show ?thesis using assms Some by (simp add: converted_def to_cell_def)
qed

text \<open>
  X4.  In a transformed row, a field whose name contains \<open>phone\<close> and not \<open>date\<close>
  (case-insensitively) holds \<open>None\<close> or a phone in the normalized form.
\<close>

theorem transformed_phone_normalized:
  assumes "transform_row serial (dict_reader names line) = Inr out" "(k, v) \<in> set out"
    and "str_in ''phone'' (lower k)" "\<not> str_in ''date'' (lower k)"
  shows "v = NoneV \<or> (\<exists>q. v = Str q \<and> normalize_phone (Some q) = Some q)"
proof -
  have "length line \<le> length names"
  proof (rule ccontr)
    assume "\<not> length line \<le> length names"
    then have "renamed_row (dict_reader names line) = Inl TypeError"
      by (intro renamed_row_long) simp
    then show False using assms(1) by (simp add: transform_row_def)
  qed
  then obtain d where
    "transform_row serial (dict_reader names line) =
       Inr (map (\<lambda>kv. (the (fst kv), converted serial (the (fst kv)) (snd kv))) d)"
    using transform_row_short [of line names serial] by blast
  then have "out = map (\<lambda>kv. (the (fst kv), converted serial (the (fst kv)) (snd kv))) d"
    using assms(1) by simp
  then obtain kv where "k = the (fst kv)" "v = converted serial k (snd kv)"
    using assms(2) by auto
  then show ?thesis using converted_phone [OF assms(3,4), of serial "snd kv"] by simp
qed

theorem transformed_phone_normalized_witness:
  "transform_row no_dates (dict_reader [''Cell Phone'', ''name''] [''1 (555) 123-4567'', ''Ann''])
     = Inr [(''Cell Phone'', Str ''555.123.4567''), (''name'', Str ''Ann'')] \<and>
   normalize_phone (Some ''555.123.4567'') = Some ''555.123.4567''"
proof -
  have t: "transform_row no_dates (dict_reader [''Cell Phone'', ''name''] [''1 (555) 123-4567'', ''Ann''])
     = Inr [(''Cell Phone'', Str ''555.123.4567''), (''name'', Str ''Ann'')]"
    by code_simp
  have m: "(''Cell Phone'', Str ''555.123.4567'') \<in> set [(''Cell Phone'', Str ''555.123.4567''), (''name'', Str ''Ann'')]"
    by simp
  have p: "str_in ''phone'' (lower ''Cell Phone'')" by code_simp
  have d: "\<not> str_in ''date'' (lower ''Cell Phone'')" by code_simp
  show ?thesis using transformed_phone_normalized [OF t m p d] t by simp
qed

end
